theory Spec2Isabelle
  imports Main
begin

section \<open>Bytes, text and the library calls of \<open>main.py\<close>\<close>

text \<open>
  A Python \<open>bytes\<close> value is a list of octets, written here as a \<open>char list\<close> (an
  Isabelle \<open>char\<close> is one octet). A Python \<open>str\<close> is a list of Unicode code points,
  written as a list of naturals. \<open>lit\<close> turns an ASCII literal into a \<open>str\<close>.
\<close>

type_synonym bytes = "char list"
type_synonym str = "nat list"

definition lit :: "string \<Rightarrow> str" where
  "lit s = map of_char s"

definition amp :: nat where "amp = 38"
definition eq_sign :: nat where "eq_sign = 61"
definition percent :: nat where "percent = 37"
definition plus_sign :: nat where "plus_sign = 43"
definition space :: nat where "space = 32"

subsection \<open>\<open>bytes.decode()\<close>: UTF-8\<close>

text \<open>
  One step of the UTF-8 decoder at a lead byte \<open>b\<close> followed by \<open>rest\<close>: either a
  scalar value and the number of bytes it took, or an ill-formed part and the number of
  bytes the error covers (a wrong start byte covers one byte, a wrong continuation byte
  covers the bytes before it, an unexpected end of data covers what is left).
\<close>

datatype utf8_step = Scalar nat nat | Invalid nat

definition is_cont :: "nat \<Rightarrow> bool" where
  "is_cont c \<longleftrightarrow> 128 \<le> c \<and> c < 192"

definition utf8_next :: "nat \<Rightarrow> nat list \<Rightarrow> utf8_step" where
  "utf8_next b rest =
    (if b < 128 then Scalar b 1
     else if b < 194 then Invalid 1
     else if b < 224 then
       (case rest of
          [] \<Rightarrow> Invalid 1
        | c1 # _ \<Rightarrow> if is_cont c1 then Scalar ((b - 192) * 64 + (c1 - 128)) 2 else Invalid 1)
     else if b < 240 then
       (case rest of
          [] \<Rightarrow> Invalid 1
        | c1 # rest1 \<Rightarrow>
            if \<not> is_cont c1 then Invalid 1
            else if (if c1 < 160 then b = 224 else b = 237) then Invalid 1
            else (case rest1 of
                [] \<Rightarrow> Invalid 2
              | c2 # _ \<Rightarrow>
                  if is_cont c2
                  then Scalar ((b - 224) * 4096 + (c1 - 128) * 64 + (c2 - 128)) 3
                  else Invalid 2))
     else if b < 245 then
       (case rest of
          [] \<Rightarrow> Invalid 1
        | c1 # rest1 \<Rightarrow>
            if \<not> is_cont c1 then Invalid 1
            else if (if c1 < 144 then b = 240 else b = 244) then Invalid 1
            else (case rest1 of
                [] \<Rightarrow> Invalid 2
              | c2 # rest2 \<Rightarrow>
                  if \<not> is_cont c2 then Invalid 2
                  else (case rest2 of
                      [] \<Rightarrow> Invalid 3
                    | c3 # _ \<Rightarrow>
                        if is_cont c3
                        then Scalar ((b - 240) * 262144 + (c1 - 128) * 4096
                                      + (c2 - 128) * 64 + (c3 - 128)) 4
                        else Invalid 3)))
     else Invalid 1)"

text \<open>\<open>errors='strict'\<close>: the first ill-formed part raises \<open>UnicodeDecodeError\<close>.\<close>

fun utf8_strict :: "nat list \<Rightarrow> str option" where
  "utf8_strict [] = Some []"
| "utf8_strict (b # rest) =
    (case utf8_next b rest of
       Scalar cp n \<Rightarrow> map_option ((#) cp) (utf8_strict (drop (n - 1) rest))
     | Invalid n \<Rightarrow> None)"

text \<open>\<open>errors='replace'\<close>: each ill-formed part becomes one U+FFFD.\<close>

fun utf8_replace :: "nat list \<Rightarrow> str" where
  "utf8_replace [] = []"
| "utf8_replace (b # rest) =
    (case utf8_next b rest of
       Scalar cp n \<Rightarrow> cp # utf8_replace (drop (n - 1) rest)
     | Invalid n \<Rightarrow> 65533 # utf8_replace (drop (n - 1) rest))"

text \<open>\<open>data.decode()\<close> of line 123: \<open>None\<close> stands for \<open>UnicodeDecodeError\<close>.\<close>

definition bytes_decode :: "bytes \<Rightarrow> str option" where
  "bytes_decode data = utf8_strict (map of_char data)"

subsection \<open>\<open>str.split\<close>\<close>

text \<open>\<open>s.split(sep)\<close> for a one-character separator: one more piece than separators.\<close>

fun split_on :: "'a \<Rightarrow> 'a list \<Rightarrow> 'a list list" where
  "split_on sep [] = [[]]"
| "split_on sep (x # xs) =
    (if x = sep then [] # split_on sep xs
     else (case split_on sep xs of
             [] \<Rightarrow> [[x]]
           | p # ps \<Rightarrow> (x # p) # ps))"

subsection \<open>\<open>urllib.parse.unquote_plus\<close>\<close>

definition hexval :: "nat \<Rightarrow> nat option" where
  "hexval c =
    (if 48 \<le> c \<and> c \<le> 57 then Some (c - 48)
     else if 65 \<le> c \<and> c \<le> 70 then Some (c - 55)
     else if 97 \<le> c \<and> c \<le> 102 then Some (c - 87)
     else None)"

text \<open>
  \<open>unquote_to_bytes\<close> splits at every \<open>%\<close>; a piece that starts with two hexadecimal
  digits contributes the octet they name and the rest of the piece, any other piece
  keeps its \<open>%\<close>.
\<close>

definition unquote_item :: "nat list \<Rightarrow> nat list" where
  "unquote_item item =
    (case item of
       h # l # more \<Rightarrow>
         (case (hexval h, hexval l) of
            (Some a, Some b) \<Rightarrow> (16 * a + b) # more
          | _ \<Rightarrow> percent # item)
     | _ \<Rightarrow> percent # item)"

definition unquote_to_bytes :: "nat list \<Rightarrow> nat list" where
  "unquote_to_bytes s =
    (case split_on percent s of
       [] \<Rightarrow> []
     | first # bits \<Rightarrow> first @ concat (map unquote_item bits))"

text \<open>
  \<open>unquote\<close> works on the maximal runs of ASCII characters: each run is turned into
  octets by \<open>unquote_to_bytes\<close> and decoded as UTF-8 with \<open>errors='replace'\<close>; the
  characters outside ASCII are kept as they are.
\<close>

function unquote :: "str \<Rightarrow> str" where
  "unquote [] = []"
| "unquote (c # cs) =
    (if c < 128
     then utf8_replace (unquote_to_bytes (c # takeWhile (\<lambda>x. x < 128) cs))
          @ unquote (dropWhile (\<lambda>x. x < 128) cs)
     else c # unquote cs)"
  by pat_completeness auto
termination
  by (relation "measure length") (auto simp: length_dropWhile_le less_Suc_eq_le)

definition unquote_plus :: "str \<Rightarrow> str" where
  "unquote_plus s = unquote (map (\<lambda>c. if c = plus_sign then space else c) s)"

section \<open>The record codec and the record store: \<open>save_data\<close>\<close>

text \<open>
  A Python \<open>dict\<close> with \<open>str\<close> keys and values: an association list with distinct keys
  in insertion order. \<open>dict_set\<close> is \<open>d[k] = v\<close>: a key already there keeps its place
  and takes the new value.
\<close>

type_synonym doc = "(str \<times> str) list"

fun dict_set :: "str \<Rightarrow> str \<Rightarrow> doc \<Rightarrow> doc" where
  "dict_set k v [] = [(k, v)]"
| "dict_set k v (p # ps) = (if fst p = k then (k, v) # ps else p # dict_set k v ps)"

text \<open>
  The target \<open>key, value\<close> of the comprehension of line 124 unpacks each
  \<open>el.split('=')\<close>: a list of any length but two raises \<open>ValueError\<close>.
\<close>

fun unpack_pair :: "str list \<Rightarrow> (str \<times> str) option" where
  "unpack_pair [k, v] = Some (k, v)"
| "unpack_pair _ = None"

fun unpack_all :: "str list list \<Rightarrow> (str \<times> str) list option" where
  "unpack_all [] = Some []"
| "unpack_all (p # ps) =
    (case unpack_pair p of
       None \<Rightarrow> None
     | Some kv \<Rightarrow> map_option ((#) kv) (unpack_all ps))"

definition dict_of :: "(str \<times> str) list \<Rightarrow> doc" where
  "dict_of kvs = foldl (\<lambda>d kv. dict_set (fst kv) (snd kv) d) [] kvs"

text \<open>
  Lines 123 and 124 on the decoded text: \<open>data_parse\<close> is the percent-decoded text,
  \<open>data_dict\<close> the dictionary built from its segments; \<open>None\<close> stands for the
  \<open>ValueError\<close> of the unpacking.
\<close>

definition data_parse :: "str \<Rightarrow> str" where
  "data_parse text = unquote_plus text"

definition segments :: "str \<Rightarrow> str list" where
  "segments parsed = split_on amp parsed"

definition data_dict :: "str \<Rightarrow> doc option" where
  "data_dict parsed =
     map_option dict_of (unpack_all (map (split_on eq_sign) (segments parsed)))"

text \<open>
  The decoding step of \<open>save_data\<close> as a whole (the spec's \<open>decode\<close>): both
  \<open>UnicodeDecodeError\<close> and the unpacking error are \<open>ValueError\<close>s.
\<close>

definition decode :: "bytes \<Rightarrow> doc option" where
  "decode data =
    (case bytes_decode data of
       None \<Rightarrow> None
     | Some text \<Rightarrow> data_dict (data_parse text))"

subsection \<open>\<open>save_data\<close>\<close>

text \<open>
  What the program does is recorded as a trace of events, in the order of the calls.
  A call's outcome that the program does not decide (does the insert succeed, what does
  the clock say, what does the peer send) is given from outside.
\<close>

datatype saving_error =
    InsertFailed          \<comment> \<open>\<open>insert_one\<close> raised: backend unreachable or write refused\<close>
  | ResultNotCallable     \<comment> \<open>\<open>asyncio.to_thread\<close> was handed the result of \<open>insert_one\<close>\<close>

datatype log_entry =
    ParsingError                  \<comment> \<open>line 128, \<open>logging.error\<close>\<close>
  | SavingError saving_error      \<comment> \<open>line 130, \<open>logging.error\<close>\<close>
  | DatabaseConnectionClosed      \<comment> \<open>line 133, \<open>logging.info\<close>\<close>
  | SocketClientError             \<comment> \<open>line 112, \<open>logging.error\<close>\<close>
  | SocketServerError             \<comment> \<open>line 154, \<open>logging.error\<close>\<close>

datatype event =
    MongoClientOpen                   \<comment> \<open>\<open>MongoClient(uri, ...)\<close>, line 121\<close>
  | InsertOne doc bool                \<comment> \<open>\<open>insert_one(doc)\<close>, and whether it stored the document\<close>
  | Log log_entry
  | MongoClientClose                  \<comment> \<open>\<open>client.close()\<close>, line 134\<close>
  | SocketCreate bool                 \<comment> \<open>\<open>socket.socket(...)\<close>, and whether it returned\<close>
  | Connect string nat bool           \<comment> \<open>\<open>sock.connect((ip, port))\<close>, and whether it returned\<close>
  | Recv nat bytes                    \<comment> \<open>\<open>sock.recv(n)\<close> returned these bytes\<close>
  | RecvError nat                     \<comment> \<open>\<open>sock.recv(n)\<close> raised\<close>
  | Send bytes bool                   \<comment> \<open>\<open>sock.send(b)\<close>, and whether it returned\<close>
  | SocketClose                       \<comment> \<open>the socket is closed: \<open>sock.close()\<close>, or its last reference goes\<close>
  | SendResponse nat                  \<comment> \<open>\<open>self.send_response(status)\<close>\<close>
  | SendHeader string string          \<comment> \<open>\<open>self.send_header(keyword, value)\<close>\<close>
  | EndHeaders                        \<comment> \<open>\<open>self.end_headers()\<close>\<close>
  | WriteFile string                  \<comment> \<open>\<open>self.wfile.write\<close> of the content of the file at this path\<close>

record db_env =
  insert_ok :: bool     \<comment> \<open>does \<open>insert_one\<close> return\<close>
  now :: str            \<comment> \<open>\<open>str(datetime.now())\<close>\<close>

text \<open>
  \<open>save_data\<close>, lines 114 to 134. The client is created without contacting the
  backend, so an unreachable backend shows at \<open>insert_one\<close>. A payload that fails to
  decode raises \<open>ValueError\<close> before line 125 and is logged at line 128. Otherwise the
  record is stamped and handed to \<open>insert_one\<close>, which is called before
  \<open>asyncio.to_thread\<close> gets its result: when the insert raises, that is logged at line
  130; when it returns, \<open>to_thread\<close> is given a value that cannot be called, and the
  \<open>TypeError\<close> is logged at line 130 as well. The \<open>finally\<close> block closes the client
  on every path, and no exception leaves the function.
\<close>

definition save_data :: "db_env \<Rightarrow> bytes \<Rightarrow> event list" where
  "save_data env data =
     MongoClientOpen #
     (case decode data of
        None \<Rightarrow> [Log ParsingError]
      | Some field_map \<Rightarrow>
          (let stamped = dict_set (lit ''date'') (now env) field_map in
           if insert_ok env
           then [InsertOne stamped True, Log (SavingError ResultNotCallable)]
           else [InsertOne stamped False, Log (SavingError InsertFailed)]))
     @ [Log DatabaseConnectionClosed, MongoClientClose]"

text \<open>The documents the backend holds after a trace: those whose insert returned.\<close>

fun persisted :: "event list \<Rightarrow> doc list" where
  "persisted [] = []"
| "persisted (InsertOne d True # es) = d # persisted es"
| "persisted (e # es) = persisted es"

text \<open>The calls of \<open>insert_one\<close> in a trace, whatever their outcome.\<close>

fun insert_attempts :: "event list \<Rightarrow> doc list" where
  "insert_attempts [] = []"
| "insert_attempts (InsertOne d ok # es) = d # insert_attempts es"
| "insert_attempts (e # es) = insert_attempts es"

section \<open>The relay server: \<open>handle\<close>\<close>

datatype recv_result =
    Returns bytes     \<comment> \<open>\<open>recv\<close> returned; the empty result is the peer's end of file\<close>
  | Raises            \<comment> \<open>\<open>recv\<close> raised a socket error\<close>
  | Blocks            \<comment> \<open>nothing arrives any more and the peer stays connected\<close>

record round =
  recv_result :: recv_result     \<comment> \<open>what \<open>sock.recv(1024)\<close> does in this iteration\<close>
  db :: db_env                   \<comment> \<open>the backend and the clock during this iteration\<close>
  send_ok :: bool                \<comment> \<open>does \<open>sock.send\<close> return in this iteration\<close>

text \<open>
  \<open>handle\<close>, lines 136 to 156, against a script of what each iteration of the loop
  meets. The script running out, like \<open>Blocks\<close>, leaves the handler waiting in
  \<open>recv\<close>: the trace ends there without \<open>SocketClose\<close>. The \<open>print\<close> calls are
  left out.
\<close>

fun handle :: "round list \<Rightarrow> event list" where
  "handle [] = []"
| "handle (r # rs) =
    (case recv_result r of
       Blocks \<Rightarrow> []
     | Raises \<Rightarrow> [RecvError 1024, Log SocketServerError, SocketClose]
     | Returns received \<Rightarrow>
         if received = [] then [Recv 1024 received, SocketClose]
         else Recv 1024 received # save_data (db r) received @
              (if send_ok r then Send received True # handle rs
               else [Send received False, Log SocketServerError, SocketClose]))"

section \<open>The relay client: \<open>send_data_to_socket\<close>\<close>

definition TCP_IP :: string where "TCP_IP = ''127.0.0.1''"
definition TCP_PORT :: nat where "TCP_PORT = 5000"

record relay_env =
  socket_ok :: bool             \<comment> \<open>does \<open>socket.socket\<close> return\<close>
  connect_ok :: bool            \<comment> \<open>does \<open>sock.connect\<close> return\<close>
  client_send_ok :: bool        \<comment> \<open>does \<open>sock.send\<close> return\<close>
  client_recv :: recv_result    \<comment> \<open>what \<open>sock.recv(1024)\<close> meets; \<open>Returns\<close> holds the bytes that have arrived\<close>

text \<open>\<open>sock.recv(n)\<close> hands over at most \<open>n\<close> of the bytes that have arrived.\<close>

definition sock_recv :: "nat \<Rightarrow> bytes \<Rightarrow> bytes" where
  "sock_recv n arrived = take n arrived"

text \<open>
  \<open>send_data_to_socket\<close>, lines 96 to 112: the trace, and whether the call returns
  (\<open>False\<close>: it waits in \<open>recv\<close> for ever, there is no timeout). Every exception is
  caught and logged at line 112, also the \<open>UnicodeDecodeError\<close> of
  \<open>response.decode()\<close> in the \<open>print\<close> of line 109. The source has no
  \<open>sock.close()\<close>: \<open>sock\<close> is a local variable and the only reference to the
  socket, so the socket is closed when the function returns, and the peer sees the end
  of the stream then. When \<open>socket.socket\<close> itself raised there is no socket to close,
  and a call that never returns keeps its socket open.
\<close>

definition send_data_to_socket :: "relay_env \<Rightarrow> bytes \<Rightarrow> event list \<times> bool" where
  "send_data_to_socket env data =
    (if \<not> socket_ok env then ([SocketCreate False, Log SocketClientError], True)
     else if \<not> connect_ok env
     then ([SocketCreate True, Connect TCP_IP TCP_PORT False, Log SocketClientError,
            SocketClose], True)
     else if \<not> client_send_ok env
     then ([SocketCreate True, Connect TCP_IP TCP_PORT True, Send data False,
            Log SocketClientError, SocketClose], True)
     else (case client_recv env of
         Blocks \<Rightarrow> ([SocketCreate True, Connect TCP_IP TCP_PORT True, Send data True], False)
       | Raises \<Rightarrow>
           ([SocketCreate True, Connect TCP_IP TCP_PORT True, Send data True,
             RecvError 1024, Log SocketClientError, SocketClose], True)
       | Returns arrived \<Rightarrow>
           (let response = sock_recv 1024 arrived in
            ([SocketCreate True, Connect TCP_IP TCP_PORT True, Send data True,
              Recv 1024 response]
             @ (if bytes_decode response = None then [Log SocketClientError] else [])
             @ [SocketClose],
             True))))"

section \<open>The HTTP front door: \<open>do_POST\<close> and \<open>send_static\<close>\<close>

subsection \<open>\<open>int\<close> of a header value\<close>

text \<open>
  \<open>int(s)\<close> for a \<open>str\<close> of Latin-1 characters, as a header value is: white space
  around the number is dropped, one sign may lead, the digits may be grouped by single
  underscores, and a number of more than 4300 digits is refused. \<open>None\<close> stands for
  \<open>ValueError\<close>. The white space \<open>int\<close> drops is tab, line feed, vertical tab, form
  feed, carriage return and space, and of the characters beyond ASCII the next-line
  control U+0085 and the no-break space U+00A0; the separators U+001C to U+001F, which
  \<open>str.strip\<close> would drop, are not among them.
\<close>

definition is_space :: "char \<Rightarrow> bool" where
  "is_space c \<longleftrightarrow> (of_char c :: nat) \<in> set [9, 10, 11, 12, 13, 32, 133, 160]"

definition is_digit :: "char \<Rightarrow> bool" where
  "is_digit c \<longleftrightarrow> (48 :: nat) \<le> of_char c \<and> (of_char c :: nat) \<le> 57"

fun int_digits :: "bool \<Rightarrow> string \<Rightarrow> nat list option" where
  "int_digits after_digit [] = (if after_digit then Some [] else None)"
| "int_digits after_digit (c # cs) =
    (if is_digit c then map_option ((#) (of_char c - 48)) (int_digits True cs)
     else if c = CHR ''_'' \<and> after_digit then int_digits False cs
     else None)"

definition py_int :: "string \<Rightarrow> int option" where
  "py_int s =
    (let t = rev (dropWhile is_space (rev (dropWhile is_space s)));
         negative = (case t of [] \<Rightarrow> False | c # _ \<Rightarrow> c = CHR ''-'');
         signed = (case t of [] \<Rightarrow> False | c # _ \<Rightarrow> c = CHR ''-'' \<or> c = CHR ''+'')
     in case int_digits False (if signed then tl t else t) of
          None \<Rightarrow> None
        | Some ds \<Rightarrow>
            if 4300 < length ds then None
            else Some ((if negative then - 1 else 1) * int (foldl (\<lambda>a d. 10 * a + d) 0 ds)))"

subsection \<open>\<open>rfile.read\<close>\<close>

datatype py_exception =
    TypeError
  | ValueError
  | OverflowError_or_MemoryError    \<comment> \<open>a size no \<open>bytes\<close> object can have, or no memory for it\<close>
  | ConnectionError                 \<comment> \<open>\<open>BrokenPipeError\<close> or \<open>ConnectionResetError\<close>\<close>
  | FileNotFoundError

datatype stream_end =
    StillOpen            \<comment> \<open>the client keeps the connection open and sends no more\<close>
  | EndOfStream          \<comment> \<open>the client has closed its side\<close>
  | ConnectionIsReset    \<comment> \<open>the connection was reset\<close>

record rfile_state =
  arrived :: bytes              \<comment> \<open>the bytes of the request after its headers\<close>
  stream_end :: stream_end      \<comment> \<open>what comes after them\<close>
  buffer_limit :: nat           \<comment> \<open>the largest number of bytes the interpreter finds memory for\<close>

datatype read_result = ReadReturns bytes | ReadRaises py_exception | ReadBlocks

text \<open>
  \<open>rfile.read(n)\<close> on the buffered reader of the connection: \<open>n\<close> bytes, fewer only
  at the end of the stream; \<open>-1\<close> reads to the end of the stream; a smaller \<open>n\<close> is
  a \<open>ValueError\<close>. The reader takes a buffer of \<open>n\<close> bytes before it reads: from
  \<open>2^63 - 1\<close> on no such size exists (\<open>OverflowError\<close>), and below that the memory
  may not be there (\<open>MemoryError\<close>, on what machine and at what size is given from
  outside as \<open>buffer_limit\<close>). Without enough bytes and without the end of the stream,
  the call waits, or raises when the connection is reset.
\<close>

definition rfile_read :: "rfile_state \<Rightarrow> int \<Rightarrow> read_result" where
  "rfile_read f n =
    (if n < - 1 then ReadRaises ValueError
     else if n = - 1
     then (if buffer_limit f < length (arrived f) then ReadRaises OverflowError_or_MemoryError
           else (case stream_end f of
                   EndOfStream \<Rightarrow> ReadReturns (arrived f)
                 | StillOpen \<Rightarrow> ReadBlocks
                 | ConnectionIsReset \<Rightarrow> ReadRaises ConnectionError))
     else if 2 ^ 63 - 1 \<le> n then ReadRaises OverflowError_or_MemoryError
     else if buffer_limit f < nat n then ReadRaises OverflowError_or_MemoryError
     else if nat n \<le> length (arrived f) then ReadReturns (take (nat n) (arrived f))
     else (case stream_end f of
             EndOfStream \<Rightarrow> ReadReturns (arrived f)
           | StillOpen \<Rightarrow> ReadBlocks
           | ConnectionIsReset \<Rightarrow> ReadRaises ConnectionError))"

subsection \<open>\<open>do_POST\<close>\<close>

record request =
  path :: string                          \<comment> \<open>\<open>self.path\<close>\<close>
  headers :: "string \<Rightarrow> string option"     \<comment> \<open>\<open>self.headers[name]\<close>, \<open>None\<close> when absent\<close>
  rfile :: rfile_state                    \<comment> \<open>\<open>self.rfile\<close>\<close>
  wfile_ok :: bool                        \<comment> \<open>does the write of the response to \<open>self.wfile\<close> return\<close>

datatype outcome =
    Completed               \<comment> \<open>the call returned\<close>
  | Raised py_exception     \<comment> \<open>the call left by an exception\<close>
  | Hung                    \<comment> \<open>the call waits for ever\<close>

text \<open>
  \<open>do_POST\<close>, lines 43 to 50: the events of the handler and how the call ends.
  \<open>self.headers['Content-Length']\<close> is \<open>None\<close> for a request without that header,
  and \<open>int(None)\<close> raises \<open>TypeError\<close>. Nothing in \<open>do_POST\<close> catches an exception
  of line 46, so the request is then left without a response. The path is not looked
  at. \<open>end_headers\<close> writes the buffered status line and headers to the client's
  socket, which raises when the client has reset the connection.
\<close>

definition do_POST :: "relay_env \<Rightarrow> request \<Rightarrow> event list \<times> outcome" where
  "do_POST env req =
    (case headers req ''Content-Length'' of
       None \<Rightarrow> ([], Raised TypeError)
     | Some s \<Rightarrow>
         (case py_int s of
            None \<Rightarrow> ([], Raised ValueError)
          | Some n \<Rightarrow>
              (case rfile_read (rfile req) n of
                 ReadRaises e \<Rightarrow> ([], Raised e)
               | ReadBlocks \<Rightarrow> ([], Hung)
               | ReadReturns data \<Rightarrow>
                   (case send_data_to_socket env data of
                      (relayed, returned) \<Rightarrow>
                        if returned
                        then (relayed @ [SendResponse 302, SendHeader ''Location'' ''/'',
                                         EndHeaders],
                              if wfile_ok req then Completed else Raised ConnectionError)
                        else (relayed, Hung)))))"

subsection \<open>\<open>send_static\<close>\<close>

definition hppt_folder :: string where "hppt_folder = ''src''"

text \<open>
  \<open>mimetypes.guess_type\<close> is a parameter: it returns the pair \<open>(type, encoding)\<close>,
  each \<open>None\<close> when the extension tells nothing. A tuple is true when its length is not
  zero; \<open>send_header\<close> formats its value with \<open>%s\<close>, which prints \<open>None\<close> as the
  text \<open>None\<close>.
\<close>

definition tuple_is_true :: "'a \<times> 'b \<Rightarrow> bool" where
  "tuple_is_true mt \<longleftrightarrow> (2 :: nat) \<noteq> 0"

fun format_s :: "string option \<Rightarrow> string" where
  "format_s None = ''None''"
| "format_s (Some s) = s"

text \<open>
  \<open>send_static\<close>, lines 65 to 76: the calls in their order and how the call ends.
  The status line and the headers go out before the file is opened; whether \<open>open\<close>
  finds the file is given from outside (a path with a query string names no file), and
  when it does not, the exception leaves the handler after the headers.
\<close>

definition send_static ::
    "(string \<Rightarrow> string option \<times> string option) \<Rightarrow> bool \<Rightarrow> string \<Rightarrow> event list \<times> outcome" where
  "send_static guess_type file_opens p =
    (let mt = guess_type p in
     ([SendResponse 200,
       (if tuple_is_true mt then SendHeader ''Content-type'' (format_s (fst mt))
        else SendHeader ''Content-type'' ''text/plain''),
       EndHeaders]
      @ (if file_opens then [WriteFile (''./'' @ hppt_folder @ p)] else []),
      if file_opens then Completed else Raised FileNotFoundError))"

section \<open>Notions the properties are stated with\<close>

text \<open>The key and the value of a segment: the text before and after its first \<open>=\<close>.\<close>

definition key_of :: "str \<Rightarrow> str" where
  "key_of seg = takeWhile (\<lambda>c. c \<noteq> eq_sign) seg"

definition value_of :: "str \<Rightarrow> str" where
  "value_of seg = drop (Suc (length (key_of seg))) seg"

text \<open>The text \<open>key=value&key=value\<dots>\<close> of a list of keys and values.\<close>

fun form_text :: "(str \<times> str) list \<Rightarrow> str" where
  "form_text [] = []"
| "form_text [kv] = fst kv @ eq_sign # snd kv"
| "form_text (kv # kv' # kvs) = fst kv @ eq_sign # snd kv @ amp # form_text (kv' # kvs)"

text \<open>A key or a value holds neither \<open>&\<close> nor \<open>=\<close>.\<close>

definition plain :: "str \<Rightarrow> bool" where
  "plain s \<longleftrightarrow> amp \<notin> set s \<and> eq_sign \<notin> set s"

text \<open>The payloads handed to \<open>sock.send\<close> and the chunks \<open>sock.recv\<close> returned in a trace.\<close>

fun sent_payloads :: "event list \<Rightarrow> bytes list" where
  "sent_payloads [] = []"
| "sent_payloads (Send b ok # es) = b # sent_payloads es"
| "sent_payloads (e # es) = sent_payloads es"

fun recv_chunks :: "event list \<Rightarrow> bytes list" where
  "recv_chunks [] = []"
| "recv_chunks (Recv n b # es) = b # recv_chunks es"
| "recv_chunks (e # es) = recv_chunks es"

text \<open>What \<open>recv\<close> returned in a round of the relay server's loop.\<close>

definition chunk_of :: "round \<Rightarrow> bytes" where
  "chunk_of r = (case recv_result r of Returns c \<Rightarrow> c | Raises \<Rightarrow> [] | Blocks \<Rightarrow> [])"

text \<open>A round in which a chunk arrives and the echo goes out.\<close>

definition echoed_round :: "round \<Rightarrow> bool" where
  "echoed_round r \<longleftrightarrow> recv_result r = Returns (chunk_of r) \<and> chunk_of r \<noteq> [] \<and> send_ok r"

section \<open>Properties\<close>

subsection \<open>Splitting, unpacking and dictionaries\<close>


lemma split_on_not_Nil: "split_on sep xs \<noteq> []"
  by (induction xs) (auto split: list.splits)

lemma length_split_on: "length (split_on sep xs) = Suc (count_list xs sep)"
  by (induction xs) (auto split: list.splits simp: split_on_not_Nil)

lemma split_on_no_sep: "sep \<notin> set xs \<Longrightarrow> split_on sep xs = [xs]"
  by (induction xs) auto

lemma split_on_append_sep:
  "sep \<notin> set xs \<Longrightarrow> split_on sep (xs @ sep # ys) = xs # split_on sep ys"
  by (induction xs) auto

lemma count_one_decomp:
  "count_list seg sep = 1 \<Longrightarrow>
     \<exists>k v. seg = k @ sep # v \<and> sep \<notin> set k \<and> sep \<notin> set v"
proof (induction seg)
  case Nil
  then show ?case by simp
next
  case (Cons x xs)
  show ?case
  proof (cases "x = sep")
    case True
    with Cons.prems have "count_list xs sep = 0" by simp
    then have "sep \<notin> set xs" by (simp add: count_list_0_iff)
    with True have "x # xs = [] @ sep # xs \<and> sep \<notin> set [] \<and> sep \<notin> set xs" by simp
    then show ?thesis by blast
  next
    case False
    with Cons.prems have "count_list xs sep = 1" by simp
    from Cons.IH [OF this] obtain k v where "xs = k @ sep # v" "sep \<notin> set k" "sep \<notin> set v"
      by blast
    with False have "x # xs = (x # k) @ sep # v \<and> sep \<notin> set (x # k) \<and> sep \<notin> set v" by auto
    then show ?thesis by blast
  qed
qed

lemma split_one_sep:
  assumes "count_list seg eq_sign = 1"
  shows "split_on eq_sign seg = [key_of seg, value_of seg]"
proof -
  from count_one_decomp [OF assms] obtain k v
    where seg: "seg = k @ eq_sign # v" and k: "eq_sign \<notin> set k" and v: "eq_sign \<notin> set v"
    by blast
  from k have tw: "takeWhile (\<lambda>c. c \<noteq> eq_sign) (k @ eq_sign # v) = k"
    by (induction k) auto
  have "split_on eq_sign seg = [k, v]"
    using seg k v by (simp add: split_on_append_sep split_on_no_sep)
  moreover have "key_of seg = k" using tw seg by (simp add: key_of_def)
  moreover have "value_of seg = v" using tw seg by (simp add: value_of_def key_of_def)
  ultimately show ?thesis by simp
qed

lemma unpack_pair_Some: "unpack_pair p = Some kv \<Longrightarrow> length p = 2"
  by (cases p rule: unpack_pair.cases) auto

lemma unpack_all_bad:
  "seg \<in> set segs \<Longrightarrow> count_list seg eq_sign \<noteq> 1 \<Longrightarrow>
     unpack_all (map (split_on eq_sign) segs) = None"
proof (induction segs)
  case Nil
  then show ?case by simp
next
  case (Cons s segs)
  show ?case
  proof (cases "unpack_pair (split_on eq_sign s)")
    case None
    then show ?thesis by simp
  next
    case (Some kv)
    then have "count_list s eq_sign = 1"
      using unpack_pair_Some [OF Some] by (simp add: length_split_on)
    with Cons.prems have "seg \<in> set segs" by auto
    with Cons.IH Cons.prems(2) Some show ?thesis by simp
  qed
qed

lemma unpack_all_good:
  "(\<And>seg. seg \<in> set segs \<Longrightarrow> count_list seg eq_sign = 1) \<Longrightarrow>
     unpack_all (map (split_on eq_sign) segs) = Some (map (\<lambda>seg. (key_of seg, value_of seg)) segs)"
  by (induction segs) (simp_all add: split_one_sep)

lemma map_of_dict_set: "map_of (dict_set k v d) = (map_of d)(k \<mapsto> v)"
  by (induction d) (auto simp: fun_eq_iff)

lemma map_of_foldl_dict_set:
  "map_of (foldl (\<lambda>d kv. dict_set (fst kv) (snd kv) d) d kvs) = map_of (rev kvs @ d)"
proof (induction kvs arbitrary: d)
  case Nil
  then show ?case by simp
next
  case (Cons kv kvs)
  show ?case
    by (cases kv) (simp add: Cons.IH map_of_dict_set fun_eq_iff map_add_def split: option.splits)
qed

lemma map_of_dict_of: "map_of (dict_of kvs) = map_of (rev kvs)"
  by (simp add: dict_of_def map_of_foldl_dict_set)

lemma dict_set_fresh: "k \<notin> fst ` set d \<Longrightarrow> dict_set k v d = d @ [(k, v)]"
  by (induction d) auto

lemma foldl_dict_set_distinct:
  "distinct (map fst (d @ kvs)) \<Longrightarrow>
     foldl (\<lambda>d kv. dict_set (fst kv) (snd kv) d) d kvs = d @ kvs"
proof (induction kvs arbitrary: d)
  case Nil
  then show ?case by simp
next
  case (Cons kv kvs)
  from Cons.prems have fresh: "fst kv \<notin> fst ` set d" by auto
  from Cons.prems have "distinct (map fst ((d @ [kv]) @ kvs))" by simp
  from Cons.IH [OF this] fresh show ?case
    by (cases kv) (simp add: dict_set_fresh)
qed

lemma dict_of_distinct: "distinct (map fst kvs) \<Longrightarrow> dict_of kvs = kvs"
  using foldl_dict_set_distinct [of "[]" kvs] by (simp add: dict_of_def)


lemma decode_text:
  "bytes_decode data = Some text \<Longrightarrow>
     decode data = map_option dict_of
       (unpack_all (map (split_on eq_sign) (segments (data_parse text))))"
  by (simp add: decode_def data_dict_def)

lemma save_data_undecodable:
  "decode data = None \<Longrightarrow>
     save_data env data =
       [MongoClientOpen, Log ParsingError, Log DatabaseConnectionClosed, MongoClientClose]"
  by (simp add: save_data_def)

text \<open>
  Claim C9. The empty payload is valid UTF-8, its text is one empty segment, which
  splits at \<open>=\<close> into a single piece; \<open>decode\<close> fails, \<open>save_data\<close> logs a parsing
  error, never calls \<open>insert_one\<close> and persists nothing.
\<close>
theorem empty_payload_is_parsing_error:
  "bytes_decode [] = Some [] \<and> segments (data_parse []) = [[]]
   \<and> split_on eq_sign [] = [[]] \<and> decode [] = None
   \<and> save_data env [] =
       [MongoClientOpen, Log ParsingError, Log DatabaseConnectionClosed, MongoClientClose]
   \<and> persisted (save_data env []) = [] \<and> insert_attempts (save_data env []) = []"
proof -
  have d: "decode [] = None"
    by (simp add: decode_def bytes_decode_def data_parse_def unquote_plus_def
        data_dict_def segments_def)
  show ?thesis
    using d save_data_undecodable [OF d, of env]
    by (simp add: bytes_decode_def data_parse_def unquote_plus_def segments_def)
qed

theorem empty_payload_is_parsing_error_witness:
  "save_data \<lparr>insert_ok = True, now = lit ''2024-05-01 10:00:00.000001''\<rparr> []
     = [MongoClientOpen, Log ParsingError, Log DatabaseConnectionClosed, MongoClientClose]
   \<and> persisted (save_data \<lparr>insert_ok = True, now = lit ''2024-05-01 10:00:00.000001''\<rparr> []) = []"
  using empty_payload_is_parsing_error
    [of "\<lparr>insert_ok = True, now = lit ''2024-05-01 10:00:00.000001''\<rparr>"]
  by simp

text \<open>
  Claim C2, as amended. For every payload whose percent-decoded text (the text
  \<open>save_data\<close> splits at \<open>&\<close>) has a segment with no \<open>=\<close> or with two or more:
  \<open>decode\<close> fails and yields no dictionary, the failure is logged as a parsing error,
  \<open>insert_one\<close> is never called and nothing is persisted.
\<close>

theorem malformed_segment_rejected:
  assumes "bytes_decode data = Some text"
    and "seg \<in> set (segments (data_parse text))"
    and "count_list seg eq_sign \<noteq> 1"
  shows "decode data = None
    \<and> save_data env data =
        [MongoClientOpen, Log ParsingError, Log DatabaseConnectionClosed, MongoClientClose]
    \<and> persisted (save_data env data) = [] \<and> insert_attempts (save_data env data) = []"
proof -
  have d: "decode data = None"
    using assms by (simp add: decode_text unpack_all_bad)
  show ?thesis
    using d save_data_undecodable [OF d, of env] by simp
qed

theorem malformed_segment_rejected_witness:
  "bytes_decode ''name=Alice&badpair'' = Some (lit ''name=Alice&badpair'')
   \<and> lit ''badpair'' \<in> set (segments (data_parse (lit ''name=Alice&badpair'')))
   \<and> count_list (lit ''badpair'') eq_sign \<noteq> 1
   \<and> decode ''name=Alice&badpair'' = None
   \<and> persisted (save_data \<lparr>insert_ok = True, now = lit ''2024-05-01 10:00:00.000001''\<rparr>
        ''name=Alice&badpair'') = []"
proof -
  have h1: "bytes_decode ''name=Alice&badpair'' = Some (lit ''name=Alice&badpair'')"
    by code_simp
  have h2: "lit ''badpair'' \<in> set (segments (data_parse (lit ''name=Alice&badpair'')))"
    by code_simp
  have h3: "count_list (lit ''badpair'') eq_sign \<noteq> 1"
    by code_simp
  from malformed_segment_rejected [OF h1 h2 h3] h1 h2 h3 show ?thesis by simp
qed

text \<open>
  The \<open>&\<close>-delimited parts of the payload itself do not decide: \<open>a%3Db\<close> is one part
  without \<open>=\<close>, yet its percent-decoded text is \<open>a=b\<close>, it decodes to \<open>{a: b}\<close> and
  is persisted; \<open>a=b%26c=d\<close> is one part with two \<open>=\<close>, yet it decodes to
  \<open>{a: b, c: d}\<close>.
\<close>

theorem raw_segment_counterexample:
  "split_on (CHR ''&'') ''a%3Db'' = [''a%3Db'']
   \<and> count_list ''a%3Db'' (CHR ''='') = 0
   \<and> decode ''a%3Db'' = Some [(lit ''a'', lit ''b'')]
   \<and> persisted (save_data \<lparr>insert_ok = True, now = lit ''2024-05-01 10:00:00.000001''\<rparr> ''a%3Db'')
       = [[(lit ''a'', lit ''b''), (lit ''date'', lit ''2024-05-01 10:00:00.000001'')]]
   \<and> split_on (CHR ''&'') ''a=b%26c=d'' = [''a=b%26c=d'']
   \<and> count_list ''a=b%26c=d'' (CHR ''='') = 2
   \<and> decode ''a=b%26c=d'' = Some [(lit ''a'', lit ''b''), (lit ''c'', lit ''d'')]"
  by code_simp

text \<open>
  Claim C6. Every document that \<open>save_data\<close> persists comes from a payload that
  decoded; it is the only document of that call; its \<open>date\<close> is the clock's string
  taken in that call, also when the payload had a \<open>date\<close> key of its own; and every
  other key is bound as in the decoded dictionary.
\<close>
theorem persisted_record_is_fields_plus_date:
  assumes "d \<in> set (persisted (save_data env data))"
  shows "\<exists>fm. decode data = Some fm
      \<and> persisted (save_data env data) = [d]
      \<and> map_of d (lit ''date'') = Some (now env)
      \<and> (\<forall>k. k \<noteq> lit ''date'' \<longrightarrow> map_of d k = map_of fm k)"
proof (cases "decode data")
  case None
  with assms show ?thesis by (simp add: save_data_def)
next
  case (Some fm)
  with assms have ok: "insert_ok env" and d: "d = dict_set (lit ''date'') (now env) fm"
    by (auto simp: save_data_def Let_def split: if_splits)
  have "persisted (save_data env data) = [d]"
    using Some ok d by (simp add: save_data_def Let_def)
  moreover have "map_of d = (map_of fm)(lit ''date'' \<mapsto> now env)"
    using d by (simp add: map_of_dict_set)
  ultimately show ?thesis using Some by simp
qed

theorem persisted_record_is_fields_plus_date_witness:
  "[(lit ''date'', lit ''2024-05-01 10:00:00.000001''), (lit ''msg'', lit ''Hi there'')]
     \<in> set (persisted (save_data \<lparr>insert_ok = True, now = lit ''2024-05-01 10:00:00.000001''\<rparr>
          ''date=1999&msg=Hi+there''))
   \<and> decode ''date=1999&msg=Hi+there'' = Some [(lit ''date'', lit ''1999''), (lit ''msg'', lit ''Hi there'')]
   \<and> map_of [(lit ''date'', lit ''2024-05-01 10:00:00.000001''), (lit ''msg'', lit ''Hi there'')]
        (lit ''date'') = Some (lit ''2024-05-01 10:00:00.000001'')"
proof -
  have h: "[(lit ''date'', lit ''2024-05-01 10:00:00.000001''), (lit ''msg'', lit ''Hi there'')]
     \<in> set (persisted (save_data \<lparr>insert_ok = True, now = lit ''2024-05-01 10:00:00.000001''\<rparr>
          ''date=1999&msg=Hi+there''))"
    by code_simp
  have e: "decode ''date=1999&msg=Hi+there''
      = Some [(lit ''date'', lit ''1999''), (lit ''msg'', lit ''Hi there'')]"
    by code_simp
  from persisted_record_is_fields_plus_date [OF h] h e show ?thesis by simp
qed



subsection \<open>The receive loop\<close>



lemma save_data_no_Recv: "Recv n b \<notin> set (save_data env d)"
  by (simp add: save_data_def Let_def split: option.splits)

lemma save_data_no_Send: "Send b ok \<notin> set (save_data env d)"
  by (simp add: save_data_def Let_def split: option.splits)

lemma save_data_no_SocketClose: "SocketClose \<notin> set (save_data env d)"
  by (simp add: save_data_def Let_def split: option.splits)

lemma append_eq_split:
  assumes "xs @ ys = us @ z # vs" and "z \<notin> set xs"
  shows "\<exists>ws. us = xs @ ws \<and> ys = ws @ z # vs"
proof -
  from assms(1) obtain w where
    "(xs = us @ w \<and> w @ ys = z # vs) \<or> (xs @ w = us \<and> ys = w @ z # vs)"
    by (auto simp: append_eq_append_conv2)
  then show ?thesis
  proof
    assume a: "xs = us @ w \<and> w @ ys = z # vs"
    show ?thesis
    proof (cases w)
      case Nil
      with a show ?thesis by auto
    next
      case (Cons w1 w')
      with a have "z \<in> set xs" by auto
      with assms(2) show ?thesis by simp
    qed
  next
    assume "xs @ w = us \<and> ys = w @ z # vs"
    then show ?thesis by auto
  qed
qed

lemma in_middle: "xs = us @ z # vs \<Longrightarrow> z \<in> set xs"
  by simp

lemma handle_after_Recv:
  "handle rs = before @ Recv n b # after \<Longrightarrow> b \<noteq> [] \<Longrightarrow>
     \<exists>env ok after'. after = save_data env b @ Send b ok # after'"
proof (induction rs arbitrary: before)
  case Nil
  then show ?case by simp
next
  case (Cons r rs)
  show ?case
  proof (cases "recv_result r")
    case Blocks
    with Cons.prems show ?thesis by simp
  next
    case Raises
    with in_middle [OF Cons.prems(1)] show ?thesis by simp
  next
    case (Returns c)
    show ?thesis
    proof (cases "c = []")
      case True
      with Returns in_middle [OF Cons.prems(1)] Cons.prems(2) show ?thesis by simp
    next
      case False
      define tail where "tail =
        (if send_ok r then Send c True # handle rs
         else [Send c False, Log SocketServerError, SocketClose])"
      from Returns False Cons.prems(1)
      have eq: "Recv 1024 c # save_data (db r) c @ tail = before @ Recv n b # after"
        by (simp add: tail_def)
      show ?thesis
      proof (cases before)
        case Nil
        with eq have "b = c" "after = save_data (db r) c @ tail" by auto
        then show ?thesis by (auto simp: tail_def)
      next
        case (Cons e before1)
        with eq have eq1: "save_data (db r) c @ tail = before1 @ Recv n b # after" by simp
        from append_eq_split [OF eq1 save_data_no_Recv]
        obtain ws where ws: "tail = ws @ Recv n b # after" by blast
        show ?thesis
        proof (cases "send_ok r")
          case True
          with ws have "Send c True # handle rs = ws @ Recv n b # after" by (simp add: tail_def)
          then obtain ws' where "handle rs = ws' @ Recv n b # after"
            by (cases ws) auto
          from Cons.IH [OF this Cons.prems(2)] show ?thesis .
        next
          case False
          with in_middle [OF ws] show ?thesis by (simp add: tail_def)
        qed
      qed
    qed
  qed
qed


lemma handle_before_Send:
  "handle rs = before @ Send b ok # after \<Longrightarrow>
     b \<noteq> [] \<and> (\<exists>env before'. before = before' @ Recv 1024 b # save_data env b)"
proof (induction rs arbitrary: before)
  case Nil
  then show ?case by simp
next
  case (Cons r rs)
  show ?case
  proof (cases "recv_result r")
    case Blocks
    with Cons.prems show ?thesis by simp
  next
    case Raises
    with in_middle [OF Cons.prems] show ?thesis by simp
  next
    case (Returns c)
    show ?thesis
    proof (cases "c = []")
      case True
      with Returns in_middle [OF Cons.prems] show ?thesis by simp
    next
      case False
      define tail where "tail =
        (if send_ok r then Send c True # handle rs
         else [Send c False, Log SocketServerError, SocketClose])"
      from Returns False Cons.prems
      have eq: "Recv 1024 c # save_data (db r) c @ tail = before @ Send b ok # after"
        by (simp add: tail_def)
      then obtain before1 where b1: "before = Recv 1024 c # before1"
        and eq1: "save_data (db r) c @ tail = before1 @ Send b ok # after"
        by (cases before) auto
      from append_eq_split [OF eq1 save_data_no_Send]
      obtain ws where ws1: "before1 = save_data (db r) c @ ws"
        and ws2: "tail = ws @ Send b ok # after" by blast
      show ?thesis
      proof (cases ws)
        case Nil
        with ws2 have "b = c" by (auto simp: tail_def split: if_splits)
        with False b1 ws1 Nil show ?thesis by auto
      next
        case (Cons w ws')
        show ?thesis
        proof (cases "send_ok r")
          case True
          with ws2 Cons have w: "w = Send c True" and "handle rs = ws' @ Send b ok # after"
            by (simp_all add: tail_def)
          from Cons.IH [OF this(2)] obtain env before'
            where ne: "b \<noteq> []" and "ws' = before' @ Recv 1024 b # save_data env b"
            by blast
          with b1 ws1 Cons w
          have "before = (Recv 1024 c # save_data (db r) c @ Send c True # before')
                  @ Recv 1024 b # save_data env b"
            by simp
          with ne show ?thesis by blast
        next
          case False
          with ws2 Cons have "[Log SocketServerError, SocketClose] = ws' @ Send b ok # after"
            by (simp add: tail_def)
          from in_middle [OF this] show ?thesis by simp
        qed
      qed
    qed
  qed
qed

lemma save_data_completes:
  "last (save_data env d) = MongoClientClose
   \<and> ((\<exists>doc. persisted (save_data env d) = [doc])
      \<or> Log ParsingError \<in> set (save_data env d)
      \<or> Log (SavingError InsertFailed) \<in> set (save_data env d))"
  by (simp add: save_data_def Let_def split: option.splits)

text \<open>
  Claim C1. In every trace of \<open>handle\<close>: a non-empty chunk returned by \<open>recv\<close> is
  followed by the whole trace of one \<open>save_data\<close> call on that chunk and then by the
  \<open>send\<close> of the very same bytes; and every \<open>send\<close> in the trace carries a
  non-empty chunk and comes right after the \<open>recv\<close> that returned these bytes and the
  whole \<open>save_data\<close> trace for them. A \<open>save_data\<close> call always runs to its
  \<open>client.close()\<close>, has stored one document or logged why not, and sends nothing.
  Nothing is assumed about the chunk, so it holds whether or not the chunk decodes.
\<close>
theorem echo_follows_persistence_attempt:
  "(handle rs = before @ Recv 1024 b # after \<and> b \<noteq> [] \<longrightarrow>
      (\<exists>env ok after'. after = save_data env b @ Send b ok # after'))
   \<and> (handle rs = before @ Send b ok # after \<longrightarrow>
      b \<noteq> [] \<and> (\<exists>env before'. before = before' @ Recv 1024 b # save_data env b))
   \<and> last (save_data env d) = MongoClientClose
   \<and> ((\<exists>doc. persisted (save_data env d) = [doc])
      \<or> Log ParsingError \<in> set (save_data env d)
      \<or> Log (SavingError InsertFailed) \<in> set (save_data env d))
   \<and> (\<forall>e \<in> set (save_data env d). e \<noteq> Send b ok)"
  using handle_after_Recv [of rs before 1024 b after] handle_before_Send [of rs before b ok after]
    save_data_completes [of env d] save_data_no_Send [of b ok env d]
  by blast


theorem echo_follows_persistence_attempt_witness:
  "handle [\<lparr>recv_result = Returns ''badpair'',
            db = \<lparr>insert_ok = True, now = lit ''2024-05-01 10:00:00.000001''\<rparr>, send_ok = True\<rparr>,
           \<lparr>recv_result = Returns [],
            db = \<lparr>insert_ok = True, now = lit ''2024-05-01 10:00:00.000002''\<rparr>, send_ok = True\<rparr>]
     = [] @ Recv 1024 ''badpair'' #
        [MongoClientOpen, Log ParsingError, Log DatabaseConnectionClosed, MongoClientClose,
         Send ''badpair'' True, Recv 1024 [], SocketClose]
   \<and> ''badpair'' \<noteq> []
   \<and> (\<exists>env ok after'.
        [MongoClientOpen, Log ParsingError, Log DatabaseConnectionClosed, MongoClientClose,
         Send ''badpair'' True, Recv 1024 [], SocketClose]
        = save_data env ''badpair'' @ Send ''badpair'' ok # after')"
proof -
  have h: "handle [\<lparr>recv_result = Returns ''badpair'',
            db = \<lparr>insert_ok = True, now = lit ''2024-05-01 10:00:00.000001''\<rparr>, send_ok = True\<rparr>,
           \<lparr>recv_result = Returns [],
            db = \<lparr>insert_ok = True, now = lit ''2024-05-01 10:00:00.000002''\<rparr>, send_ok = True\<rparr>]
     = [] @ Recv 1024 ''badpair'' #
        [MongoClientOpen, Log ParsingError, Log DatabaseConnectionClosed, MongoClientClose,
         Send ''badpair'' True, Recv 1024 [], SocketClose]"
    by code_simp
  have ne: "''badpair'' \<noteq> []" by simp
  from echo_follows_persistence_attempt
    [of "[\<lparr>recv_result = Returns ''badpair'',
            db = \<lparr>insert_ok = True, now = lit ''2024-05-01 10:00:00.000001''\<rparr>, send_ok = True\<rparr>,
           \<lparr>recv_result = Returns [],
            db = \<lparr>insert_ok = True, now = lit ''2024-05-01 10:00:00.000002''\<rparr>, send_ok = True\<rparr>]"
        "[]" "''badpair''"
        "[MongoClientOpen, Log ParsingError, Log DatabaseConnectionClosed, MongoClientClose,
         Send ''badpair'' True, Recv 1024 [], SocketClose]"]
    h ne
  show ?thesis by blast
qed

lemma handle_echoed_round:
  "echoed_round r \<Longrightarrow>
     handle (r # rs) =
       (Recv 1024 (chunk_of r) # save_data (db r) (chunk_of r) @ [Send (chunk_of r) True])
       @ handle rs"
  by (cases "recv_result r") (auto simp: echoed_round_def chunk_of_def)

lemma handle_echoed_rounds:
  "(\<And>r. r \<in> set pre \<Longrightarrow> echoed_round r) \<Longrightarrow>
     handle (pre @ rs) =
       concat (map (\<lambda>r. Recv 1024 (chunk_of r) # save_data (db r) (chunk_of r)
                          @ [Send (chunk_of r) True]) pre)
       @ handle rs"
proof (induction pre)
  case Nil
  then show ?case by simp
next
  case (Cons r pre)
  then have "echoed_round r" by simp
  from handle_echoed_round [OF this, of "pre @ rs"] Cons show ?case by simp
qed

lemma save_data_errors_logged:
  "length (insert_attempts (save_data env data)) \<le> 1
   \<and> (decode data = None \<longrightarrow> Log ParsingError \<in> set (save_data env data))
   \<and> ((\<exists>fm. decode data = Some fm) \<and> \<not> insert_ok env \<longrightarrow>
        Log (SavingError InsertFailed) \<in> set (save_data env data)
        \<and> persisted (save_data env data) = [])"
  by (auto simp: save_data_def Let_def split: option.splits)

text \<open>
  Claim C5. Let each round of a stretch of the script deliver a non-empty chunk and let
  its echo go out; nothing is assumed about whether the chunks decode or whether the
  inserts succeed. Then \<open>handle\<close> goes through every round of the stretch (receive,
  one \<open>save_data\<close>, echo) and carries on with the rest of the script. A
  \<open>save_data\<close> call never closes the socket, calls \<open>insert_one\<close> at most once (no
  retry), logs a parsing error when the chunk does not decode, and logs the failure and
  stores nothing when the insert fails.
\<close>
theorem errors_keep_the_connection:
  assumes "\<forall>r \<in> set pre. echoed_round r"
  shows "handle (pre @ rs) =
       concat (map (\<lambda>r. Recv 1024 (chunk_of r) # save_data (db r) (chunk_of r)
                          @ [Send (chunk_of r) True]) pre)
       @ handle rs
    \<and> SocketClose \<notin> set (save_data env data)
    \<and> length (insert_attempts (save_data env data)) \<le> 1
    \<and> (decode data = None \<longrightarrow> Log ParsingError \<in> set (save_data env data))
    \<and> ((\<exists>fm. decode data = Some fm) \<and> \<not> insert_ok env \<longrightarrow>
        Log (SavingError InsertFailed) \<in> set (save_data env data)
        \<and> persisted (save_data env data) = [])"
  using assms handle_echoed_rounds [of pre rs] save_data_no_SocketClose [of env data]
    save_data_errors_logged [of env data]
  by blast

theorem errors_keep_the_connection_witness:
  "echoed_round \<lparr>recv_result = Returns ''badpair'',
                  db = \<lparr>insert_ok = True, now = lit ''2024-05-01 10:00:00.000001''\<rparr>,
                  send_ok = True\<rparr>
   \<and> echoed_round \<lparr>recv_result = Returns ''a=b'',
                  db = \<lparr>insert_ok = False, now = lit ''2024-05-01 10:00:00.000002''\<rparr>,
                  send_ok = True\<rparr>
   \<and> handle ([\<lparr>recv_result = Returns ''badpair'',
                  db = \<lparr>insert_ok = True, now = lit ''2024-05-01 10:00:00.000001''\<rparr>,
                  send_ok = True\<rparr>,
                 \<lparr>recv_result = Returns ''a=b'',
                  db = \<lparr>insert_ok = False, now = lit ''2024-05-01 10:00:00.000002''\<rparr>,
                  send_ok = True\<rparr>]
               @ [\<lparr>recv_result = Returns [],
                  db = \<lparr>insert_ok = True, now = lit ''2024-05-01 10:00:00.000003''\<rparr>,
                  send_ok = True\<rparr>])
      = [Recv 1024 ''badpair'', MongoClientOpen, Log ParsingError, Log DatabaseConnectionClosed,
         MongoClientClose, Send ''badpair'' True,
         Recv 1024 ''a=b'', MongoClientOpen,
         InsertOne [(lit ''a'', lit ''b''), (lit ''date'', lit ''2024-05-01 10:00:00.000002'')] False,
         Log (SavingError InsertFailed), Log DatabaseConnectionClosed, MongoClientClose,
         Send ''a=b'' True,
         Recv 1024 [], SocketClose]"
proof -
  have h: "\<forall>r \<in> set [\<lparr>recv_result = Returns ''badpair'',
                  db = \<lparr>insert_ok = True, now = lit ''2024-05-01 10:00:00.000001''\<rparr>,
                  send_ok = True\<rparr>,
                 \<lparr>recv_result = Returns ''a=b'',
                  db = \<lparr>insert_ok = False, now = lit ''2024-05-01 10:00:00.000002''\<rparr>,
                  send_ok = True\<rparr>]. echoed_round r"
    by code_simp
  have s1: "save_data \<lparr>insert_ok = True, now = lit ''2024-05-01 10:00:00.000001''\<rparr> ''badpair''
      = [MongoClientOpen, Log ParsingError, Log DatabaseConnectionClosed, MongoClientClose]"
    by code_simp
  have s2: "save_data \<lparr>insert_ok = False, now = lit ''2024-05-01 10:00:00.000002''\<rparr> ''a=b''
      = [MongoClientOpen,
         InsertOne [(lit ''a'', lit ''b''), (lit ''date'', lit ''2024-05-01 10:00:00.000002'')] False,
         Log (SavingError InsertFailed), Log DatabaseConnectionClosed, MongoClientClose]"
    by code_simp
  from errors_keep_the_connection [OF h,
      of "[\<lparr>recv_result = Returns [],
                  db = \<lparr>insert_ok = True, now = lit ''2024-05-01 10:00:00.000003''\<rparr>,
                  send_ok = True\<rparr>]"]
    h s1 s2
  show ?thesis by (simp add: chunk_of_def)
qed

subsection \<open>Percent-decoding across the separators\<close>


lemma utf8_next_bound:
  "utf8_next b rest = Scalar cp n \<Longrightarrow> n - 1 \<le> length rest"
  "utf8_next b rest = Invalid n \<Longrightarrow> n - 1 \<le> length rest"
  by (auto simp: utf8_next_def split: if_splits list.splits)

lemma utf8_next_append:
  "\<not> is_cont s \<Longrightarrow> utf8_next b (rest @ s # bs) = utf8_next b rest"
  by (auto simp: utf8_next_def split: list.splits)


lemma utf8_replace_append:
  "s < 128 \<Longrightarrow> utf8_replace (a @ s # b) = utf8_replace a @ s # utf8_replace b"
proof (induction a rule: utf8_replace.induct)
  case 1
  then show ?case by (simp add: utf8_next_def)
next
  case (2 c rest)
  from "2.prems" have nc: "\<not> is_cont s" by (simp add: is_cont_def)
  show ?case
  proof (cases "utf8_next c rest")
    case (Scalar cp n)
    from utf8_next_bound(1) [OF Scalar] have "n - 1 \<le> length rest" .
    with Scalar "2.IH"(1) [OF Scalar "2.prems"] nc show ?thesis
      by (simp add: utf8_next_append)
  next
    case (Invalid n)
    from utf8_next_bound(2) [OF Invalid] have "n - 1 \<le> length rest" .
    with Invalid "2.IH"(2) [OF Invalid "2.prems"] nc show ?thesis
      by (simp add: utf8_next_append)
  qed
qed

lemma utf8_replace_Nil_ascii: "s < 128 \<Longrightarrow> utf8_replace (s # b) = s # utf8_replace b"
  using utf8_replace_append [of s "[]" b] by simp

lemma unquote_item_append:
  "hexval s = None \<Longrightarrow> unquote_item (a @ s # t) = unquote_item a @ s # t"
proof (cases a)
  case Nil
  assume "hexval s = None"
  with Nil show ?thesis by (cases t) (simp_all add: unquote_item_def)
next
  case (Cons h a')
  assume "hexval s = None"
  with Cons show ?thesis
    by (cases a') (simp_all add: unquote_item_def split: option.splits)
qed

lemma split_on_append_other:
  "s \<noteq> p \<Longrightarrow> split_on p a = xs @ [l] \<Longrightarrow> split_on p b = h # t \<Longrightarrow>
     split_on p (a @ s # b) = xs @ (l @ s # h) # t"
proof (induction a arbitrary: xs l)
  case Nil
  then show ?case by simp
next
  case (Cons x a)
  obtain q qs where sa: "split_on p a = q # qs"
    using split_on_not_Nil [of p a] by (cases "split_on p a") auto
  show ?case
  proof (cases "x = p")
    case True
    with Cons.prems(2) sa obtain xs' where xs: "xs = [] # xs'" and "split_on p a = xs' @ [l]"
      by (cases xs) auto
    from Cons.IH [OF Cons.prems(1) this(2) Cons.prems(3)] True xs show ?thesis by simp
  next
    case False
    show ?thesis
    proof (cases qs rule: rev_cases)
      case Nil
      with Cons.prems(2) sa False have xs: "xs = []" and l: "l = x # q"
        by (auto simp: Cons_eq_append_conv)
      from sa Nil have "split_on p a = [] @ [q]" by simp
      from Cons.IH [OF Cons.prems(1) this Cons.prems(3)] False xs l show ?thesis by simp
    next
      case (snoc qs' l')
      with Cons.prems(2) sa False have xs: "xs = (x # q) # qs'" and l: "l = l'"
        by auto
      from sa snoc l have "split_on p a = (q # qs') @ [l]" by simp
      from Cons.IH [OF Cons.prems(1) this Cons.prems(3)] False xs show ?thesis by simp
    qed
  qed
qed

lemma unquote_to_bytes_append:
  assumes "s \<noteq> percent" and "hexval s = None"
  shows "unquote_to_bytes (a @ s # b) = unquote_to_bytes a @ s # unquote_to_bytes b"
proof -
  obtain h t where sb: "split_on percent b = h # t"
    using split_on_not_Nil [of percent b] by (cases "split_on percent b") auto
  obtain xs l where sa: "split_on percent a = xs @ [l]"
    using split_on_not_Nil [of percent a] by (cases "split_on percent a" rule: rev_cases) auto
  from split_on_append_other [OF assms(1) sa sb]
  have sab: "split_on percent (a @ s # b) = xs @ (l @ s # h) # t" .
  show ?thesis
  proof (cases xs)
    case Nil
    with sa sb sab show ?thesis by (simp add: unquote_to_bytes_def)
  next
    case (Cons f items)
    with sa sb sab assms(2) show ?thesis
      by (simp add: unquote_to_bytes_def unquote_item_append)
  qed
qed

lemma unquote_to_bytes_Nil: "unquote_to_bytes [] = []"
  by (simp add: unquote_to_bytes_def)

lemma unquote_runs:
  "unquote b = utf8_replace (unquote_to_bytes (takeWhile (\<lambda>x. x < 128) b))
               @ unquote (dropWhile (\<lambda>x. x < 128) b)"
  by (cases b) (simp_all add: unquote_to_bytes_Nil)

lemma unquote_append:
  assumes "s < 128" and "s \<noteq> percent" and "hexval s = None"
  shows "unquote (a @ s # b) = unquote a @ s # unquote b"
proof (induction a rule: unquote.induct)
  case 1
  have "unquote (s # b) =
      utf8_replace (unquote_to_bytes ([] @ s # takeWhile (\<lambda>x. x < 128) b))
      @ unquote (dropWhile (\<lambda>x. x < 128) b)"
    using assms(1) by simp
  also have "\<dots> = s # utf8_replace (unquote_to_bytes (takeWhile (\<lambda>x. x < 128) b))
      @ unquote (dropWhile (\<lambda>x. x < 128) b)"
    using assms(1)
      unquote_to_bytes_append [OF assms(2,3), of "[]" "takeWhile (\<lambda>x. x < 128) b"]
    by (simp add: unquote_to_bytes_Nil utf8_next_def)
  also have "\<dots> = s # unquote b"
    using unquote_runs [of b] by simp
  finally show ?case by simp
next
  case (2 c cs)
  show ?case
  proof (cases "c < 128")
    case False
    with 2 show ?thesis by simp
  next
    case True
    show ?thesis
    proof (cases "\<forall>x \<in> set cs. x < 128")
      case all: True
      then have tw: "takeWhile (\<lambda>x. x < 128) (cs @ s # b) = cs @ s # takeWhile (\<lambda>x. x < 128) b"
        and dw: "dropWhile (\<lambda>x. x < 128) (cs @ s # b) = dropWhile (\<lambda>x. x < 128) b"
        using assms(1) by (simp_all add: takeWhile_append2 dropWhile_append2)
      from all have tw': "takeWhile (\<lambda>x. x < 128) cs = cs"
        and dw': "dropWhile (\<lambda>x. x < 128) cs = []" by simp_all
      have "unquote ((c # cs) @ s # b) =
          utf8_replace (unquote_to_bytes ((c # cs) @ s # takeWhile (\<lambda>x. x < 128) b))
          @ unquote (dropWhile (\<lambda>x. x < 128) b)"
        using True tw dw by simp
      also have "\<dots> = utf8_replace (unquote_to_bytes (c # cs))
          @ s # utf8_replace (unquote_to_bytes (takeWhile (\<lambda>x. x < 128) b))
          @ unquote (dropWhile (\<lambda>x. x < 128) b)"
        using assms(1)
          unquote_to_bytes_append [OF assms(2,3), of "c # cs" "takeWhile (\<lambda>x. x < 128) b"]
        by (simp add: utf8_replace_append)
      also have "\<dots> = unquote (c # cs) @ s # unquote b"
        using True unquote_runs [of b] by (simp add: tw' dw')
      finally show ?thesis .
    next
      case False
      then have tw: "takeWhile (\<lambda>x. x < 128) (cs @ s # b) = takeWhile (\<lambda>x. x < 128) cs"
        and dw: "dropWhile (\<lambda>x. x < 128) (cs @ s # b) = dropWhile (\<lambda>x. x < 128) cs @ s # b"
        by (auto simp: takeWhile_append1 dropWhile_append1)
      from True tw dw "2.IH"(1) [OF True] show ?thesis by simp
    qed
  qed
qed


lemma unquote_plus_append:
  assumes "s = amp \<or> s = eq_sign"
  shows "unquote_plus (a @ s # b) = unquote_plus a @ s # unquote_plus b"
proof -
  from assms have "s < 128" "s \<noteq> percent" "hexval s = None" "s \<noteq> plus_sign"
    by (auto simp: amp_def eq_sign_def percent_def hexval_def plus_sign_def)
  then show ?thesis
    by (simp add: unquote_plus_def unquote_append)
qed

lemma data_parse_form_text:
  "data_parse (form_text kvs) =
     form_text (map (\<lambda>kv. (unquote_plus (fst kv), unquote_plus (snd kv))) kvs)"
proof (induction kvs rule: form_text.induct)
  case 1
  then show ?case by (simp add: data_parse_def unquote_plus_def)
next
  case (2 kv)
  then show ?case by (simp add: data_parse_def unquote_plus_append)
next
  case (3 kv kv' kvs)
  have "data_parse (form_text (kv # kv' # kvs)) =
      unquote_plus (fst kv) @ eq_sign # unquote_plus (snd kv @ amp # form_text (kv' # kvs))"
    by (simp add: data_parse_def unquote_plus_append)
  also have "\<dots> = unquote_plus (fst kv) @ eq_sign # unquote_plus (snd kv)
      @ amp # data_parse (form_text (kv' # kvs))"
    by (simp add: data_parse_def unquote_plus_append)
  finally show ?case using 3 by simp
qed

lemma segments_form_text:
  "kvs \<noteq> [] \<Longrightarrow> (\<And>kv. kv \<in> set kvs \<Longrightarrow> plain (fst kv) \<and> plain (snd kv)) \<Longrightarrow>
     segments (form_text kvs) = map (\<lambda>kv. fst kv @ eq_sign # snd kv) kvs"
proof (induction kvs rule: form_text.induct)
  case 1
  then show ?case by simp
next
  case (2 kv)
  then have "amp \<notin> set (fst kv @ eq_sign # snd kv)"
    by (auto simp: plain_def amp_def eq_sign_def)
  then show ?case by (simp add: segments_def split_on_no_sep)
next
  case (3 kv kv' kvs)
  from "3.prems"(2) [of kv] have "amp \<notin> set (fst kv @ eq_sign # snd kv)"
    by (auto simp: plain_def amp_def eq_sign_def)
  then have "split_on amp ((fst kv @ eq_sign # snd kv) @ amp # form_text (kv' # kvs))
      = (fst kv @ eq_sign # snd kv) # split_on amp (form_text (kv' # kvs))"
    by (rule split_on_append_sep)
  moreover have "segments (form_text (kv' # kvs)) = map (\<lambda>kv. fst kv @ eq_sign # snd kv) (kv' # kvs)"
    using "3.IH" "3.prems"(2) by simp
  ultimately show ?case by (simp add: segments_def)
qed

lemma unpack_all_plain:
  "(\<And>kv. kv \<in> set kvs \<Longrightarrow> plain (fst kv) \<and> plain (snd kv)) \<Longrightarrow>
     unpack_all (map (split_on eq_sign) (map (\<lambda>kv. fst kv @ eq_sign # snd kv) kvs)) = Some kvs"
proof (induction kvs)
  case Nil
  then show ?case by simp
next
  case (Cons kv kvs)
  from Cons.prems [of kv] have "eq_sign \<notin> set (fst kv)" "eq_sign \<notin> set (snd kv)"
    by (simp_all add: plain_def)
  then have "split_on eq_sign (fst kv @ eq_sign # snd kv) = [fst kv, snd kv]"
    by (simp add: split_on_append_sep split_on_no_sep)
  with Cons show ?case by simp
qed

text \<open>
  Claim C4, as amended. For every payload whose text is \<open>key=value&key=value\<dots>\<close> (at
  least one pair) and whose keys and values, once percent-decoded, hold neither \<open>&\<close>
  nor \<open>=\<close>, the decoded keys being distinct: \<open>decode\<close> yields exactly the given keys
  bound to the given values, both percent-decoded, in the order given.
\<close>
theorem decode_well_formed:
  assumes "bytes_decode data = Some (form_text kvs)"
    and "kvs \<noteq> []"
    and "\<forall>kv \<in> set kvs. plain (unquote_plus (fst kv)) \<and> plain (unquote_plus (snd kv))"
    and "distinct (map (\<lambda>kv. unquote_plus (fst kv)) kvs)"
  shows "decode data = Some (map (\<lambda>kv. (unquote_plus (fst kv), unquote_plus (snd kv))) kvs)"
proof -
  let ?dec = "map (\<lambda>kv. (unquote_plus (fst kv), unquote_plus (snd kv))) kvs"
  have pl: "\<And>kv. kv \<in> set ?dec \<Longrightarrow> plain (fst kv) \<and> plain (snd kv)"
    using assms(3) by auto
  have ne: "?dec \<noteq> []" using assms(2) by simp
  have "segments (form_text ?dec) = map (\<lambda>kv. fst kv @ eq_sign # snd kv) ?dec"
    using ne by (rule segments_form_text) (rule pl)
  then have seg: "segments (data_parse (form_text kvs))
      = map (\<lambda>kv. fst kv @ eq_sign # snd kv) ?dec"
    by (simp only: data_parse_form_text)
  have "unpack_all (map (split_on eq_sign) (map (\<lambda>kv. fst kv @ eq_sign # snd kv) ?dec))
      = Some ?dec"
    by (rule unpack_all_plain) (rule pl)
  then have "unpack_all (map (split_on eq_sign) (segments (data_parse (form_text kvs)))) = Some ?dec"
    by (simp only: seg)
  moreover have "dict_of ?dec = ?dec"
    using assms(4) by (intro dict_of_distinct) (simp add: comp_def)
  ultimately show ?thesis
    using assms(1) by (simp add: decode_text)
qed

theorem decode_well_formed_witness:
  "bytes_decode ''name=Alice&msg=Hi%20there''
     = Some (form_text [(lit ''name'', lit ''Alice''), (lit ''msg'', lit ''Hi%20there'')])
   \<and> plain (unquote_plus (lit ''name'')) \<and> plain (unquote_plus (lit ''Alice''))
   \<and> plain (unquote_plus (lit ''msg'')) \<and> plain (unquote_plus (lit ''Hi%20there''))
   \<and> distinct (map (\<lambda>kv. unquote_plus (fst kv))
        [(lit ''name'', lit ''Alice''), (lit ''msg'', lit ''Hi%20there'')])
   \<and> decode ''name=Alice&msg=Hi%20there''
     = Some [(lit ''name'', lit ''Alice''), (lit ''msg'', lit ''Hi there'')]"
proof -
  let ?kvs = "[(lit ''name'', lit ''Alice''), (lit ''msg'', lit ''Hi%20there'')]"
  have h1: "bytes_decode ''name=Alice&msg=Hi%20there'' = Some (form_text ?kvs)"
    by code_simp
  have h2: "?kvs \<noteq> []" by simp
  have h3: "\<forall>kv \<in> set ?kvs. plain (unquote_plus (fst kv)) \<and> plain (unquote_plus (snd kv))"
    by code_simp
  have h4: "distinct (map (\<lambda>kv. unquote_plus (fst kv)) ?kvs)"
    by code_simp
  have e: "map (\<lambda>kv. (unquote_plus (fst kv), unquote_plus (snd kv))) ?kvs
      = [(lit ''name'', lit ''Alice''), (lit ''msg'', lit ''Hi there'')]"
    by code_simp
  from decode_well_formed [OF h1 h2 h3 h4] h1 h3 h4 e show ?thesis by simp
qed

text \<open>
  A value that encodes a separator breaks it: \<open>x=a%3Db\<close> has the key \<open>x\<close> and the value
  \<open>a%3Db\<close>, which percent-decodes to \<open>a=b\<close>, and \<open>decode\<close> fails;
  \<open>msg=a%26b%3Dc\<close> gives \<open>{msg: a, b: c}\<close> instead of \<open>msg\<close> bound to \<open>a&b=c\<close>.
\<close>
theorem encoded_separator_counterexample:
  "bytes_decode ''x=a%3Db'' = Some (form_text [(lit ''x'', lit ''a%3Db'')])
   \<and> plain (lit ''x'') \<and> plain (lit ''a%3Db'')
   \<and> unquote_plus (lit ''a%3Db'') = lit ''a=b''
   \<and> decode ''x=a%3Db'' = None
   \<and> bytes_decode ''msg=a%26b%3Dc'' = Some (form_text [(lit ''msg'', lit ''a%26b%3Dc'')])
   \<and> plain (lit ''msg'') \<and> plain (lit ''a%26b%3Dc'')
   \<and> unquote_plus (lit ''a%26b%3Dc'') = lit ''a&b=c''
   \<and> decode ''msg=a%26b%3Dc'' = Some [(lit ''msg'', lit ''a''), (lit ''b'', lit ''c'')]"
  by code_simp

subsection \<open>The relay client and the HTTP handler\<close>

lemma rfile_read_within:
  "rfile_read f n = ReadReturns data \<Longrightarrow> 0 \<le> n \<Longrightarrow> nat n \<le> length (arrived f) \<Longrightarrow>
     data = take (nat n) (arrived f)"
  by (auto simp: rfile_read_def split: if_splits stream_end.splits)




text \<open>
  Claim C7. When every call succeeds, \<open>send_data_to_socket\<close> creates a socket,
  connects to 127.0.0.1:5000, hands the whole payload to one \<open>send\<close>, reads one chunk
  of at most 1024 bytes, and the socket is closed as the function returns. Whatever
  the calls do: the payload is handed to \<open>send\<close> at most once and as a whole, at most
  one chunk is read and it has at most 1024 bytes, and a call that returns after it got
  a socket ends with that socket closed.
\<close>

theorem relay_client_one_exchange:
  "(socket_ok env \<and> connect_ok env \<and> client_send_ok env \<and> client_recv env = Returns echo \<longrightarrow>
      send_data_to_socket env data
        = ([SocketCreate True, Connect ''127.0.0.1'' 5000 True, Send data True,
            Recv 1024 (take 1024 echo)]
           @ (if bytes_decode (take 1024 echo) = None then [Log SocketClientError] else [])
           @ [SocketClose],
           True))
   \<and> (sent_payloads (fst (send_data_to_socket env data)) = []
      \<or> sent_payloads (fst (send_data_to_socket env data)) = [data])
   \<and> (recv_chunks (fst (send_data_to_socket env data)) = []
      \<or> (\<exists>chunk. recv_chunks (fst (send_data_to_socket env data)) = [chunk]
            \<and> length chunk \<le> 1024))
   \<and> (socket_ok env \<and> snd (send_data_to_socket env data) \<longrightarrow>
      last (fst (send_data_to_socket env data)) = SocketClose)"
  by (cases "client_recv env")
    (auto simp: send_data_to_socket_def sock_recv_def TCP_IP_def TCP_PORT_def Let_def)

theorem relay_client_one_exchange_witness:
  "send_data_to_socket
      \<lparr>socket_ok = True, connect_ok = True, client_send_ok = True,
        client_recv = Returns ''name=Alice''\<rparr> ''name=Alice''
     = ([SocketCreate True, Connect ''127.0.0.1'' 5000 True, Send ''name=Alice'' True,
         Recv 1024 ''name=Alice'', SocketClose], True)"
proof -
  have d: "bytes_decode (take 1024 ''name=Alice'') = Some (lit ''name=Alice'')" by code_simp
  from relay_client_one_exchange
    [of "\<lparr>socket_ok = True, connect_ok = True, client_send_ok = True,
          client_recv = Returns ''name=Alice''\<rparr>" "''name=Alice''" "''name=Alice''"] d
  show ?thesis by simp
qed

text \<open>
  Claim C8, on the code. When \<open>guess_type\<close> finds no type for the path, \<open>send_static\<close>
  sends the header \<open>Content-type: None\<close>: the pair it tests is never false, so the
  \<open>text/plain\<close> branch is never taken.
\<close>
theorem static_unknown_type_header:
  assumes "fst (guess_type p) = None"
  shows "send_static guess_type file_opens p =
      ([SendResponse 200, SendHeader ''Content-type'' ''None'', EndHeaders]
       @ (if file_opens then [WriteFile (''./src'' @ p)] else []),
       if file_opens then Completed else Raised FileNotFoundError)
    \<and> SendHeader ''Content-type'' ''text/plain'' \<notin> set (fst (send_static guess_type file_opens p))"
  using assms by (simp add: send_static_def tuple_is_true_def hppt_folder_def Let_def)

theorem static_unknown_type_header_witness:
  "fst ((\<lambda>p. (None, None)) ''/notes.qqq'') = None
   \<and> send_static (\<lambda>p. (None, None)) True ''/notes.qqq'' =
      ([SendResponse 200, SendHeader ''Content-type'' ''None'', EndHeaders,
        WriteFile ''./src/notes.qqq''], Completed)"
  using static_unknown_type_header [of "\<lambda>p. (None, None)" "''/notes.qqq''" True]
  by simp

end
